theory Spec2Isabelle
  imports Main "HOL-Library.Sublist"
begin

section \<open>The clock-driving testbench \<open>src/sim/sim_main.cpp\<close>\<close>

text \<open>
  The file holds one function, \<open>main\<close>:
  \<^verbatim>\<open>
   5  int main(int argc, char **argv) {
   6      Verilated::commandArgs(argc, argv);
   7      Vtop* top = new Vtop;
  10      top->clk = 0;
  11      const int cycles = 10;
  13      for (int i = 0; i < cycles; ++i) {
  15          top->clk = 1;
  16          top->eval();
  19          top->clk = 0;
  20          top->eval();
  21      }
  23      std::cout << "Sim done\n";
  24      delete top;
  25      return 0;
  26  }
  \<close>
  It is embedded as a machine that executes one statement per step. A configuration holds
  the program point, the locals of \<open>main\<close>, the registered command line, the heap of
  model instances and standard output, so that what holds throughout an execution is a
  statement about every configuration the machine passes through. Two further fields only
  record what happened: the sequence of calls and assignments the driver made, and the
  part of standard output that calls of \<open>eval\<close> wrote.
\<close>

subsection \<open>The hardware model supplied by the toolchain\<close>

text \<open>
  \<open>Vtop.h\<close> and \<open>verilated.h\<close> are generated or supplied by the simulation toolchain and
  are not part of the repository's sources. Of the class \<open>Vtop\<close> the driver uses the member
  \<open>clk\<close>, to which it assigns the literals 0 and 1, the constructor, \<open>eval()\<close> and the
  destructor. An instance is the clock input together with the rest of the model's state,
  of a type \<open>'m\<close> that is left open.
\<close>

record 'm Vtop =
  clk :: int
  internals :: 'm

type_synonym cmdline = "int \<times> string list"

text \<open>
  Modelled from the spec: the class \<open>Vtop\<close>, whose declaration and code are missing. The
  spec calls it "the compiled hardware model's evaluation entry point and its clock input
  signal, both supplied by the external simulation toolchain", and its output "the model's
  own simulated output". The class is a parameter of the embedding. The constructor yields
  some instance (with whatever value it leaves in \<open>clk\<close>). \<open>eval\<close> is given the command
  line registered with \<open>Verilated::commandArgs\<close> (none, if that was never called), the
  clock input and the model's state, and returns the next state and the text the model
  prints. The clock is an input of the model: \<open>eval\<close> reads it and does not assign it.
  Both are functions: a call returns. The constructor and the destructor print nothing.
\<close>

record 'm Vtop_class =
  Vtop_new :: "cmdline option \<Rightarrow> 'm Vtop"
  Vtop_eval :: "cmdline option \<Rightarrow> int \<Rightarrow> 'm \<Rightarrow> 'm \<times> string"

subsection \<open>Configurations\<close>

type_synonym addr = nat

text \<open>Program points, named by the line of the statement that is executed next.\<close>

datatype pc =
  L6 | L7 | L10 | L11 | L13_init | L13_cond | L15 | L16 | L19 | L20 | L13_incr
  | L23 | L24 | L25
  | Exit int
  | Fault

text \<open>What the driver does, in the order it does it.\<close>

datatype event =
  CommandArgs int "string list"
  | is_New: New addr
  | SetClk addr int
  | is_Eval: Eval addr int
  | Cout string
  | Delete addr
  | Return int

record 'm config =
  pc :: pc
  l_argc :: int
  l_argv :: "string list"
  l_top :: "addr option"
  l_i :: "int option"
  registered :: "cmdline option"
  heap :: "addr \<rightharpoonup> 'm Vtop"
  brk :: addr
  stdout :: string
  eval_out :: string
  trace :: "event list"

text \<open>
  \<open>l_argc\<close>, \<open>l_argv\<close>, \<open>l_top\<close> and \<open>l_i\<close> are the parameters and locals \<open>argc\<close>, \<open>argv\<close>, \<open>top\<close>
  and \<open>i\<close>; the last two are \<open>None\<close> while the variable is not in scope. The counter is a
  mathematical integer: it is shown below to stay between 0 and 10, so the 32-bit \<open>int\<close>
  of the source never wraps. Addresses number the allocations, from 0; \<open>brk\<close> is the next
  address the allocator hands out. In an \<open>Eval\<close> event the number is the value of \<open>clk\<close> in
  the instance at the moment of the call. \<open>stdout\<close> is all that has been written to
  \<open>std::cout\<close>, and \<open>eval_out\<close> is what the calls of \<open>eval\<close> have written of it.
\<close>

definition cycles :: int where
  "cycles = 10"

definition sim_done :: string where
  "sim_done = ''Sim done'' @ [CHR 0x0A]"

definition start :: "int \<Rightarrow> string list \<Rightarrow> 'm config" where
  "start ac av =
     \<lparr>pc = L6, l_argc = ac, l_argv = av, l_top = None, l_i = None, registered = None,
      heap = Map.empty, brk = 0, stdout = [], eval_out = [], trace = []\<rparr>"

subsection \<open>Statements\<close>

text \<open>
  Using a pointer that does not point to a live instance, or a variable that is not in
  scope, has no meaning in the source; the machine then goes to \<open>Fault\<close>.
\<close>

definition fault :: "'m config \<Rightarrow> 'm config" where
  "fault c = c\<lparr>pc := Fault\<rparr>"

text \<open>\<open>top->clk = x;\<close>\<close>

definition store_clk :: "int \<Rightarrow> pc \<Rightarrow> 'm config \<Rightarrow> 'm config" where
  "store_clk x nxt c =
     (case l_top c of
        None \<Rightarrow> fault c
      | Some a \<Rightarrow>
          (case heap c a of
             None \<Rightarrow> fault c
           | Some v \<Rightarrow>
               c\<lparr>pc := nxt, heap := (heap c)(a \<mapsto> v\<lparr>clk := x\<rparr>),
                 trace := trace c @ [SetClk a x]\<rparr>))"

text \<open>\<open>top->eval();\<close>\<close>

definition call_eval :: "'m Vtop_class \<Rightarrow> pc \<Rightarrow> 'm config \<Rightarrow> 'm config" where
  "call_eval m nxt c =
     (case l_top c of
        None \<Rightarrow> fault c
      | Some a \<Rightarrow>
          (case heap c a of
             None \<Rightarrow> fault c
           | Some v \<Rightarrow>
               (case Vtop_eval m (registered c) (clk v) (internals v) of
                  (s, out) \<Rightarrow>
                    c\<lparr>pc := nxt, heap := (heap c)(a \<mapsto> v\<lparr>internals := s\<rparr>),
                      stdout := stdout c @ out, eval_out := eval_out c @ out,
                      trace := trace c @ [Eval a (clk v)]\<rparr>)))"

text \<open>
  One statement of \<open>main\<close>. Line 11 declares the constant \<open>cycles\<close> and changes nothing.
  Line 13 is three program points: the initialisation of \<open>i\<close>, the test and the increment.
  A finished or faulted program stays where it is.
\<close>

definition step :: "'m Vtop_class \<Rightarrow> 'm config \<Rightarrow> 'm config" where
  "step m c =
     (case pc c of
        L6 \<Rightarrow>
          c\<lparr>pc := L7, registered := Some (l_argc c, l_argv c),
            trace := trace c @ [CommandArgs (l_argc c) (l_argv c)]\<rparr>
      | L7 \<Rightarrow>
          c\<lparr>pc := L10, l_top := Some (brk c),
            heap := (heap c)(brk c \<mapsto> Vtop_new m (registered c)),
            brk := Suc (brk c), trace := trace c @ [New (brk c)]\<rparr>
      | L10 \<Rightarrow> store_clk 0 L11 c
      | L11 \<Rightarrow> c\<lparr>pc := L13_init\<rparr>
      | L13_init \<Rightarrow> c\<lparr>pc := L13_cond, l_i := Some 0\<rparr>
      | L13_cond \<Rightarrow>
          (case l_i c of
             None \<Rightarrow> fault c
           | Some k \<Rightarrow> if k < cycles then c\<lparr>pc := L15\<rparr> else c\<lparr>pc := L23, l_i := None\<rparr>)
      | L15 \<Rightarrow> store_clk 1 L16 c
      | L16 \<Rightarrow> call_eval m L19 c
      | L19 \<Rightarrow> store_clk 0 L20 c
      | L20 \<Rightarrow> call_eval m L13_incr c
      | L13_incr \<Rightarrow>
          (case l_i c of
             None \<Rightarrow> fault c
           | Some k \<Rightarrow> c\<lparr>pc := L13_cond, l_i := Some (k + 1)\<rparr>)
      | L23 \<Rightarrow>
          c\<lparr>pc := L24, stdout := stdout c @ sim_done, trace := trace c @ [Cout sim_done]\<rparr>
      | L24 \<Rightarrow>
          (case l_top c of
             None \<Rightarrow> fault c
           | Some a \<Rightarrow>
               (case heap c a of
                  None \<Rightarrow> fault c
                | Some v \<Rightarrow>
                    c\<lparr>pc := L25, heap := (heap c)(a := None),
                      trace := trace c @ [Delete a]\<rparr>))
      | L25 \<Rightarrow> c\<lparr>pc := Exit 0, trace := trace c @ [Return 0]\<rparr>
      | Exit r \<Rightarrow> c
      | Fault \<Rightarrow> c)"

subsection \<open>Executions\<close>

text \<open>The configuration after \<open>n\<close> statements.\<close>

fun exec :: "'m Vtop_class \<Rightarrow> nat \<Rightarrow> 'm config \<Rightarrow> 'm config" where
  "exec m 0 c = c"
| "exec m (Suc n) c = exec m n (step m c)"

text \<open>The program points of the first \<open>n\<close> statements executed from a configuration.\<close>

fun visited :: "'m Vtop_class \<Rightarrow> nat \<Rightarrow> 'm config \<Rightarrow> pc list" where
  "visited m 0 c = []"
| "visited m (Suc n) c = pc c # visited m n (step m c)"

definition halted :: "'m config \<Rightarrow> bool" where
  "halted c = (case pc c of Exit r \<Rightarrow> True | Fault \<Rightarrow> True | _ \<Rightarrow> False)"

text \<open>
  Running to the end: the result is the configuration in which the program has stopped,
  and \<open>None\<close> if it never stops.
\<close>

partial_function (option) run :: "'m Vtop_class \<Rightarrow> 'm config \<Rightarrow> 'm config option" where
  "run m c = (if halted c then Some c else run m (step m c))"

definition main :: "'m Vtop_class \<Rightarrow> int \<Rightarrow> string list \<Rightarrow> 'm config option" where
  "main m ac av = run m (start ac av)"

text \<open>The status a stopped program has returned.\<close>

definition exit_status :: "'m config \<Rightarrow> int option" where
  "exit_status c = (case pc c of Exit r \<Rightarrow> Some r | _ \<Rightarrow> None)"

text \<open>
  What the model does by itself when it is evaluated on a sequence of clock values, one call
  of \<open>eval\<close> per value: from a state and the text printed so far, to the state reached and
  the text printed then. \<open>r\<close> is the registered command line.
\<close>

fun eval_seq ::
  "'m Vtop_class \<Rightarrow> cmdline option \<Rightarrow> int list \<Rightarrow> 'm \<times> string \<Rightarrow> 'm \<times> string" where
  "eval_seq m r [] (s, out) = (s, out)"
| "eval_seq m r (k # ks) (s, out) =
     (case Vtop_eval m r k s of (s', out') \<Rightarrow> eval_seq m r ks (s', out @ out'))"

subsection \<open>Models to run the driver on\<close>

text \<open>
  A flip-flop that toggles on every evaluation with the clock high and prints its new
  value, and a model without state that prints nothing. The constructor of the first
  leaves the clock input high.
\<close>

definition toggler :: "bool Vtop_class" where
  "toggler =
     \<lparr>Vtop_new = (\<lambda>r. \<lparr>clk = 1, internals = False\<rparr>),
      Vtop_eval = (\<lambda>r k q. if k = 1 then (\<not> q, if q then ''q=0 '' else ''q=1 '') else (q, []))\<rparr>"

definition silent :: "unit Vtop_class" where
  "silent = \<lparr>Vtop_new = (\<lambda>r. \<lparr>clk = 0, internals = ()\<rparr>), Vtop_eval = (\<lambda>r k u. ((), []))\<rparr>"


subsection \<open>What holds at each program point\<close>

text \<open>
  \<open>live x c\<close>: an instance is allocated at address 0 and nowhere else (without it the heap
  is empty), \<open>top\<close> points to it, its clock input is \<open>x\<close>, and everything on standard
  output was printed by the model.
\<close>

definition live :: "int \<Rightarrow> 'm config \<Rightarrow> bool" where
  "live x c \<longleftrightarrow>
     l_top c = Some 0 \<and> brk c = 1 \<and> (heap c)(0 := None) = Map.empty \<and>
     map_option clk (heap c 0) = Some x \<and>
     registered c = Some (l_argc c, l_argv c) \<and> stdout c = eval_out c"

text \<open>
  \<open>in_loop strict c\<close>: the counter is in scope and between 0 and \<open>cycles\<close>, below \<open>cycles\<close>
  when \<open>strict\<close>. \<open>freed c\<close>: the instance is gone, the heap is empty and the driver has
  printed its line. \<open>invariant m ac av c\<close> says which of these holds at each program point of
  an execution on the model \<open>m\<close> with the command line \<open>ac\<close>, \<open>av\<close>.
\<close>

definition in_loop :: "bool \<Rightarrow> 'm config \<Rightarrow> bool" where
  "in_loop strict c =
     (case l_i c of
        None \<Rightarrow> False
      | Some k \<Rightarrow> 0 \<le> k \<and> (if strict then k < cycles else k \<le> cycles))"

definition freed :: "'m config \<Rightarrow> bool" where
  "freed c \<longleftrightarrow>
     l_top c = Some 0 \<and> brk c = 1 \<and> heap c = Map.empty \<and> l_i c = None \<and>
     registered c = Some (l_argc c, l_argv c) \<and> stdout c = eval_out c @ sim_done"

definition invariant :: "'m Vtop_class \<Rightarrow> int \<Rightarrow> string list \<Rightarrow> 'm config \<Rightarrow> bool" where
  "invariant m ac av c \<longleftrightarrow>
     l_argc c = ac \<and> l_argv c = av \<and>
     (case pc c of
        L6 \<Rightarrow>
          l_top c = None \<and> brk c = 0 \<and> heap c = Map.empty \<and> l_i c = None \<and>
          registered c = None \<and> stdout c = eval_out c
      | L7 \<Rightarrow>
          l_top c = None \<and> brk c = 0 \<and> heap c = Map.empty \<and> l_i c = None \<and>
          registered c = Some (ac, av) \<and> stdout c = eval_out c
      | L10 \<Rightarrow>
          l_top c = Some 0 \<and> brk c = 1 \<and> (heap c)(0 := None) = Map.empty \<and>
          heap c 0 = Some (Vtop_new m (Some (ac, av))) \<and> l_i c = None \<and>
          registered c = Some (ac, av) \<and> stdout c = eval_out c
      | L11 \<Rightarrow> live 0 c \<and> l_i c = None
      | L13_init \<Rightarrow> live 0 c \<and> l_i c = None
      | L13_cond \<Rightarrow> live 0 c \<and> in_loop False c
      | L15 \<Rightarrow> live 0 c \<and> in_loop True c
      | L16 \<Rightarrow> live 1 c \<and> in_loop True c
      | L19 \<Rightarrow> live 1 c \<and> in_loop True c
      | L20 \<Rightarrow> live 0 c \<and> in_loop True c
      | L13_incr \<Rightarrow> live 0 c \<and> in_loop True c
      | L23 \<Rightarrow> live 0 c \<and> l_i c = None
      | L24 \<Rightarrow>
          l_top c = Some 0 \<and> brk c = 1 \<and> (heap c)(0 := None) = Map.empty \<and>
          l_i c = None \<and> map_option clk (heap c 0) = Some 0 \<and>
          registered c = Some (ac, av) \<and> stdout c = eval_out c @ sim_done
      | L25 \<Rightarrow> freed c
      | Exit r \<Rightarrow> r = 0 \<and> freed c
      | Fault \<Rightarrow> False)"

section \<open>Properties of the machine\<close>

subsection \<open>The invariant holds throughout\<close>

lemma invariant_start: "invariant m ac av (start ac av)"
  by (simp add: invariant_def start_def)

lemma live_obtain: "live x c \<Longrightarrow> \<exists>v. heap c 0 = Some v \<and> clk v = x"
  by (simp add: live_def)

lemma store_clk_at:
  "l_top c = Some a \<Longrightarrow> heap c a = Some v \<Longrightarrow>
   store_clk x nxt c =
     c\<lparr>pc := nxt, heap := (heap c)(a \<mapsto> v\<lparr>clk := x\<rparr>), trace := trace c @ [SetClk a x]\<rparr>"
  by (simp add: store_clk_def)

lemma call_eval_at:
  "l_top c = Some a \<Longrightarrow> heap c a = Some v \<Longrightarrow>
   call_eval m nxt c =
     c\<lparr>pc := nxt,
       heap := (heap c)(a \<mapsto> v\<lparr>internals := fst (Vtop_eval m (registered c) (clk v) (internals v))\<rparr>),
       stdout := stdout c @ snd (Vtop_eval m (registered c) (clk v) (internals v)),
       eval_out := eval_out c @ snd (Vtop_eval m (registered c) (clk v) (internals v)),
       trace := trace c @ [Eval a (clk v)]\<rparr>"
  by (simp add: call_eval_def case_prod_beta)

lemma live_store_clk:
  assumes "live x c" shows "live y (store_clk y nxt c)"
proof -
  from assms obtain v where v: "heap c 0 = Some v" using live_obtain by blast
  from assms have t: "l_top c = Some 0" by (simp add: live_def)
  show ?thesis using assms by (simp add: store_clk_at [OF t v] live_def)
qed

lemma live_call_eval:
  assumes "live x c" shows "live x (call_eval m nxt c)"
proof -
  from assms obtain v where v: "heap c 0 = Some v" "clk v = x" using live_obtain by blast
  from assms have t: "l_top c = Some 0" by (simp add: live_def)
  show ?thesis using assms v by (simp add: call_eval_at [OF t v(1)] live_def)
qed

lemma store_clk_frame:
  assumes "live x c"
  shows "pc (store_clk y nxt c) = nxt \<and> l_i (store_clk y nxt c) = l_i c \<and>
     l_argc (store_clk y nxt c) = l_argc c \<and> l_argv (store_clk y nxt c) = l_argv c"
proof -
  from assms obtain v where v: "heap c 0 = Some v" using live_obtain by blast
  from assms have t: "l_top c = Some 0" by (simp add: live_def)
  show ?thesis by (simp add: store_clk_at [OF t v])
qed

lemma call_eval_frame:
  assumes "live x c"
  shows "pc (call_eval m nxt c) = nxt \<and> l_i (call_eval m nxt c) = l_i c \<and>
     l_argc (call_eval m nxt c) = l_argc c \<and> l_argv (call_eval m nxt c) = l_argv c"
proof -
  from assms obtain v where v: "heap c 0 = Some v" using live_obtain by blast
  from assms have t: "l_top c = Some 0" by (simp add: live_def)
  show ?thesis by (simp add: call_eval_at [OF t v])
qed


lemmas invariant_defs = invariant_def in_loop_def freed_def

lemma invariant_step:
  assumes "invariant m ac av c" shows "invariant m ac av (step m c)"
proof (cases "pc c")
  case L6 with assms show ?thesis by (simp add: invariant_defs step_def)
next
  case L7 with assms show ?thesis by (simp add: invariant_defs step_def)
next
  case L10
  with assms have t: "l_top c = Some 0" and v: "heap c 0 = Some (Vtop_new m (Some (ac, av)))"
    by (simp_all add: invariant_def)
  show ?thesis using assms L10 by (simp add: invariant_defs step_def live_def store_clk_at [OF t v])
next
  case L11 with assms show ?thesis by (simp add: invariant_defs step_def live_def)
next
  case L13_init with assms show ?thesis by (simp add: invariant_defs step_def cycles_def live_def)
next
  case L13_cond with assms show ?thesis
    by (simp add: invariant_defs step_def fault_def live_def split: option.splits)
next
  case L15 with assms show ?thesis
    by (simp add: invariant_defs step_def live_store_clk [of 0] store_clk_frame [of 0])
next
  case L16 with assms show ?thesis
    by (simp add: invariant_defs step_def live_call_eval call_eval_frame [of 1])
next
  case L19 with assms show ?thesis
    by (simp add: invariant_defs step_def live_store_clk [of 1] store_clk_frame [of 1])
next
  case L20 with assms show ?thesis
    by (simp add: invariant_defs step_def live_call_eval call_eval_frame [of 0])
next
  case L13_incr with assms show ?thesis
    by (simp add: invariant_defs step_def fault_def live_def split: option.splits)
next
  case L23 with assms show ?thesis by (simp add: invariant_defs step_def live_def)
next
  case L24
  with assms have "map_option clk (heap c 0) = Some 0" by (simp add: invariant_def)
  then obtain v where v: "heap c 0 = Some v" by auto
  show ?thesis using assms L24 v by (simp add: invariant_defs step_def)
next
  case L25 with assms show ?thesis by (simp add: invariant_defs step_def)
next
  case (Exit r) with assms show ?thesis by (simp add: invariant_defs step_def)
next
  case Fault with assms show ?thesis by (simp add: invariant_defs step_def)
qed

lemma invariant_exec: "invariant m ac av c \<Longrightarrow> invariant m ac av (exec m n c)"
  by (induction n arbitrary: c) (simp_all add: invariant_step)

lemma invariant_run: "invariant m ac av (exec m n (start ac av))"
  by (simp add: invariant_exec invariant_start)


subsection \<open>Running to the end\<close>

lemma exec_add: "exec m (a + b) c = exec m b (exec m a c)"
  by (induction a arbitrary: c) simp_all

lemma visited_add: "visited m (a + b) c = visited m a c @ visited m b (exec m a c)"
  by (induction a arbitrary: c) simp_all

lemma step_halted: "halted c \<Longrightarrow> step m c = c"
  by (simp add: halted_def step_def split: pc.splits)


lemma visited_halted: "halted c \<Longrightarrow> visited m n c = replicate n (pc c)"
  by (induction n) (simp_all add: step_halted)

lemma run_step: "run m (step m c) = run m c"
  by (cases "halted c") (simp_all add: step_halted run.simps [of m c])

lemma run_exec: "run m (exec m n c) = run m c"
  by (induction n arbitrary: c) (simp_all add: run_step)

lemma run_halted: "halted c \<Longrightarrow> run m c = Some c"
  by (simp add: run.simps)

lemmas stmt_defs = step_def store_clk_def call_eval_def case_prod_beta

text \<open>
  The statements before the loop, one iteration, any number of iterations, and the
  statements after the loop.
\<close>

lemma prologue:
  "pc (exec m 5 (start ac av)) = L13_cond \<and> l_i (exec m 5 (start ac av)) = Some 0 \<and>
   live 0 (exec m 5 (start ac av)) \<and>
   trace (exec m 5 (start ac av)) = [CommandArgs ac av, New 0, SetClk 0 0] \<and>
   visited m 5 (start ac av) = [L6, L7, L10, L11, L13_init]"
  by (simp add: numeral_eq_Suc start_def stmt_defs live_def)

lemma iteration:
  assumes "pc c = L13_cond" and "l_i c = Some k" and "k < cycles" and "live 0 c"
  shows "pc (exec m 6 c) = L13_cond \<and> l_i (exec m 6 c) = Some (k + 1) \<and>
    live 0 (exec m 6 c) \<and>
    trace (exec m 6 c) = trace c @ [SetClk 0 1, Eval 0 1, SetClk 0 0, Eval 0 0] \<and>
    visited m 6 c = [L13_cond, L15, L16, L19, L20, L13_incr]"
proof -
  from assms(4) obtain v where v: "heap c 0 = Some v" "clk v = 0" using live_obtain by blast
  show ?thesis using assms v
    by (simp add: numeral_eq_Suc stmt_defs live_def)
qed

lemma iterations:
  assumes "pc c = L13_cond" and "l_i c = Some k" and "k + int j \<le> cycles" and "live 0 c"
  shows "pc (exec m (6 * j) c) = L13_cond \<and> l_i (exec m (6 * j) c) = Some (k + int j) \<and>
    live 0 (exec m (6 * j) c) \<and>
    trace (exec m (6 * j) c) =
      trace c @ concat (replicate j [SetClk 0 1, Eval 0 1, SetClk 0 0, Eval 0 0]) \<and>
    visited m (6 * j) c = concat (replicate j [L13_cond, L15, L16, L19, L20, L13_incr])"
  using assms
proof (induction j arbitrary: c k)
  case 0
  then show ?case by simp
next
  case (Suc j)
  have lt: "k < cycles" using Suc.prems(3) by simp
  note it = iteration [OF Suc.prems(1,2) lt Suc.prems(4), of m]
  have le: "(k + 1) + int j \<le> cycles" using Suc.prems(3) by simp
  have ih: "pc (exec m (6 * j) (exec m 6 c)) = L13_cond \<and>
    l_i (exec m (6 * j) (exec m 6 c)) = Some (k + 1 + int j) \<and>
    live 0 (exec m (6 * j) (exec m 6 c)) \<and>
    trace (exec m (6 * j) (exec m 6 c)) =
      trace (exec m 6 c) @ concat (replicate j [SetClk 0 1, Eval 0 1, SetClk 0 0, Eval 0 0]) \<and>
    visited m (6 * j) (exec m 6 c) = concat (replicate j [L13_cond, L15, L16, L19, L20, L13_incr])"
    using Suc.IH [of "exec m 6 c" "k + 1"] it le by blast
  have split: "6 * Suc j = 6 + 6 * j" by simp
  show ?case unfolding split exec_add visited_add using ih it by (simp add: add.assoc)
qed

lemma epilogue:
  assumes "pc c = L13_cond" and "l_i c = Some cycles" and "live 0 c"
  shows "pc (exec m 4 c) = Exit 0 \<and> freed (exec m 4 c) \<and>
    trace (exec m 4 c) = trace c @ [Cout sim_done, Delete 0, Return 0] \<and>
    visited m 4 c = [L13_cond, L23, L24, L25]"
proof -
  from assms(3) obtain v where v: "heap c 0 = Some v" "clk v = 0" using live_obtain by blast
  show ?thesis using assms v
    by (simp add: numeral_eq_Suc stmt_defs live_def freed_def)
qed

lemma whole_run:
  "pc (exec m 69 (start ac av)) = Exit 0 \<and>
   trace (exec m 69 (start ac av)) =
     [CommandArgs ac av, New 0, SetClk 0 0] @
     concat (replicate (nat cycles) [SetClk 0 1, Eval 0 1, SetClk 0 0, Eval 0 0]) @
     [Cout sim_done, Delete 0, Return 0] \<and>
   visited m 69 (start ac av) =
     [L6, L7, L10, L11, L13_init] @
     concat (replicate (nat cycles) [L13_cond, L15, L16, L19, L20, L13_incr]) @
     [L13_cond, L23, L24, L25]"
proof -
  let ?c5 = "exec m 5 (start ac av)"
  let ?c65 = "exec m (6 * nat cycles) ?c5"
  note p = prologue [of m ac av]
  have le: "0 + int (nat cycles) \<le> cycles" by (simp add: cycles_def)
  have l: "pc ?c65 = L13_cond \<and> l_i ?c65 = Some (0 + int (nat cycles)) \<and> live 0 ?c65 \<and>
    trace ?c65 = trace ?c5 @ concat (replicate (nat cycles) [SetClk 0 1, Eval 0 1, SetClk 0 0, Eval 0 0]) \<and>
    visited m (6 * nat cycles) ?c5 = concat (replicate (nat cycles) [L13_cond, L15, L16, L19, L20, L13_incr])"
    using iterations [of ?c5 0 "nat cycles" m] p le by blast
  have i: "l_i ?c65 = Some cycles" using l by (simp add: cycles_def)
  note e = epilogue [of ?c65 m]
  have n: "(69::nat) = 5 + (6 * nat cycles + 4)" by (simp add: cycles_def)
  show ?thesis unfolding n exec_add visited_add using p l e i by simp
qed

lemma main_result: "main m ac av = Some (exec m 69 (start ac av))"
proof -
  have "halted (exec m 69 (start ac av))" using whole_run [of m ac av] by (simp add: halted_def)
  then have "run m (exec m 69 (start ac av)) = Some (exec m 69 (start ac av))"
    by (rule run_halted)
  then show ?thesis by (simp add: main_def run_exec)
qed

subsection \<open>The final configuration and the path to it\<close>

lemma ten_times: "concat (replicate 10 xs) = xs @ xs @ xs @ xs @ xs @ xs @ xs @ xs @ xs @ xs"
  by (simp add: numeral_eq_Suc)

lemma final_config:
  "\<exists>c. main m ac av = Some c \<and> c = exec m 69 (start ac av) \<and> pc c = Exit 0 \<and>
     invariant m ac av c \<and>
     trace c =
       [CommandArgs ac av, New 0, SetClk 0 0] @
       concat (replicate 10 [SetClk 0 1, Eval 0 1, SetClk 0 0, Eval 0 0]) @
       [Cout sim_done, Delete 0, Return 0]"
  using whole_run [of m ac av] invariant_run [of m ac av 69]
  by (simp add: main_result cycles_def)

lemma length_visited: "length (visited m n c) = n"
  by (induction n arbitrary: c) simp_all

lemma visited_take: "visited m n c = take n (visited m (n + k) c)"
  by (simp add: visited_add length_visited)


lemma control_path:
  "visited m (70 + n) (start ac av) =
     [L6, L7, L10, L11, L13_init] @
     concat (replicate 10 [L13_cond, L15, L16, L19, L20, L13_incr]) @
     [L13_cond, L23, L24, L25] @ replicate (Suc n) (Exit 0)"
proof -
  have h: "halted (exec m 69 (start ac av))"
    using whole_run [of m ac av] by (simp add: halted_def)
  have s: "70 + n = 69 + Suc n" by simp
  show ?thesis
    unfolding s visited_add visited_halted [OF h] using whole_run [of m ac av]
    by (simp add: cycles_def)
qed

lemma body_entered_10_times: "count_list (visited m (70 + n) (start ac av)) L15 = 10"
proof -
  have k: "count_list (replicate k (Exit 0)) L15 = 0" for k by (induction k) simp_all
  show ?thesis unfolding control_path ten_times by (simp add: k)
qed


subsection \<open>The calls of \<open>eval\<close> are applied to the model\<close>

lemma prologue_model:
  "heap (exec m 5 (start ac av)) 0 =
     Some \<lparr>clk = 0, internals = internals (Vtop_new m (Some (ac, av)))\<rparr> \<and>
   stdout (exec m 5 (start ac av)) = [] \<and>
   registered (exec m 5 (start ac av)) = Some (ac, av)"
  by (cases "Vtop_new m (Some (ac, av))") (simp add: numeral_eq_Suc start_def stmt_defs)

lemma iteration_model:
  assumes "pc c = L13_cond" and "l_i c = Some k" and "k < cycles" and "l_top c = Some 0"
    and "heap c 0 = Some \<lparr>clk = 0, internals = s\<rparr>"
  shows "heap (exec m 6 c) 0 =
      Some \<lparr>clk = 0, internals = fst (eval_seq m (registered c) [1, 0] (s, stdout c))\<rparr> \<and>
    stdout (exec m 6 c) = snd (eval_seq m (registered c) [1, 0] (s, stdout c)) \<and>
    registered (exec m 6 c) = registered c \<and> l_top (exec m 6 c) = Some 0"
  using assms by (simp add: numeral_eq_Suc stmt_defs)

lemma iterations_model:
  assumes "pc c = L13_cond" and "l_i c = Some k" and "k + int j \<le> cycles" and "live 0 c"
    and "heap c 0 = Some \<lparr>clk = 0, internals = s\<rparr>"
  shows "heap (exec m (6 * j) c) 0 =
      Some \<lparr>clk = 0, internals =
        fst (eval_seq m (registered c) (concat (replicate j [1, 0])) (s, stdout c))\<rparr> \<and>
    stdout (exec m (6 * j) c) =
      snd (eval_seq m (registered c) (concat (replicate j [1, 0])) (s, stdout c))"
  using assms
proof (induction j arbitrary: c k s)
  case 0
  then show ?case by simp
next
  case (Suc j)
  have lt: "k < cycles" using Suc.prems(3) by simp
  have t: "l_top c = Some 0" using Suc.prems(4) by (simp add: live_def)
  note it = iteration [OF Suc.prems(1,2) lt Suc.prems(4), of m]
  note im = iteration_model [OF Suc.prems(1,2) lt t Suc.prems(5), of m]
  have le: "(k + 1) + int j \<le> cycles" using Suc.prems(3) by simp
  have split: "6 * Suc j = 6 + 6 * j" by simp
  have ih: "heap (exec m (6 * j) (exec m 6 c)) 0 =
      Some \<lparr>clk = 0, internals =
        fst (eval_seq m (registered (exec m 6 c)) (concat (replicate j [1, 0]))
          (fst (eval_seq m (registered c) [1, 0] (s, stdout c)), stdout (exec m 6 c)))\<rparr> \<and>
    stdout (exec m (6 * j) (exec m 6 c)) =
      snd (eval_seq m (registered (exec m 6 c)) (concat (replicate j [1, 0]))
          (fst (eval_seq m (registered c) [1, 0] (s, stdout c)), stdout (exec m 6 c)))"
    using Suc.IH [of "exec m 6 c" "k + 1"] it im le by blast
  show ?case unfolding split exec_add using ih im by (simp add: case_prod_beta)
qed

lemma epilogue_out:
  assumes "pc c = L13_cond" and "l_i c = Some cycles" and "live 0 c"
  shows "eval_out (exec m 4 c) = eval_out c"
proof -
  from assms(3) obtain v where v: "heap c 0 = Some v" "clk v = 0" using live_obtain by blast
  show ?thesis using assms v by (simp add: numeral_eq_Suc stmt_defs live_def)
qed

lemma model_at_test:
  assumes "j \<le> nat cycles"
  shows "pc (exec m (5 + 6 * j) (start ac av)) = L13_cond \<and>
    l_i (exec m (5 + 6 * j) (start ac av)) = Some (int j) \<and>
    live 0 (exec m (5 + 6 * j) (start ac av)) \<and>
    heap (exec m (5 + 6 * j) (start ac av)) 0 =
      Some \<lparr>clk = 0, internals =
        fst (eval_seq m (Some (ac, av)) (concat (replicate j [1, 0]))
          (internals (Vtop_new m (Some (ac, av))), []))\<rparr> \<and>
    stdout (exec m (5 + 6 * j) (start ac av)) =
      snd (eval_seq m (Some (ac, av)) (concat (replicate j [1, 0]))
          (internals (Vtop_new m (Some (ac, av))), []))"
proof -
  let ?c5 = "exec m 5 (start ac av)"
  note p = prologue [of m ac av]
  note pm = prologue_model [of m ac av]
  have le: "0 + int j \<le> cycles" using assms by (simp add: cycles_def)
  have a: "pc (exec m (6 * j) ?c5) = L13_cond \<and> l_i (exec m (6 * j) ?c5) = Some (0 + int j) \<and>
      live 0 (exec m (6 * j) ?c5)"
    using iterations [of ?c5 0 j m] p le by blast
  have b: "heap (exec m (6 * j) ?c5) 0 =
      Some \<lparr>clk = 0, internals =
        fst (eval_seq m (registered ?c5) (concat (replicate j [1, 0]))
          (internals (Vtop_new m (Some (ac, av))), stdout ?c5))\<rparr> \<and>
    stdout (exec m (6 * j) ?c5) =
      snd (eval_seq m (registered ?c5) (concat (replicate j [1, 0]))
          (internals (Vtop_new m (Some (ac, av))), stdout ?c5))"
    using iterations_model [of ?c5 0 j "internals (Vtop_new m (Some (ac, av)))" m] p pm le
    by blast
  show ?thesis unfolding exec_add using a b pm by simp
qed

lemma model_output:
  "eval_out (exec m 69 (start ac av)) =
     snd (eval_seq m (Some (ac, av)) (concat (replicate (nat cycles) [1, 0]))
       (internals (Vtop_new m (Some (ac, av))), []))"
proof -
  let ?c = "exec m (5 + 6 * nat cycles) (start ac av)"
  have m: "pc ?c = L13_cond \<and> l_i ?c = Some (int (nat cycles)) \<and> live 0 ?c \<and>
     stdout ?c = snd (eval_seq m (Some (ac, av)) (concat (replicate (nat cycles) [1, 0]))
       (internals (Vtop_new m (Some (ac, av))), []))"
    using model_at_test [of "nat cycles" m ac av] by simp
  then have i: "l_i ?c = Some cycles" by (simp add: cycles_def)
  have e: "eval_out (exec m 4 ?c) = eval_out ?c" using epilogue_out [of ?c m] m i by blast
  have s: "eval_out ?c = stdout ?c" using m by (simp add: live_def)
  have n: "(69::nat) = (5 + 6 * nat cycles) + 4" by (simp add: cycles_def)
  show ?thesis unfolding n exec_add [of m "5 + 6 * nat cycles" 4] using e s m by simp
qed

subsection \<open>The trace only grows\<close>




subsection \<open>The heap holds at most the one instance\<close>










subsection \<open>Control does not depend on the command line\<close>

lemma step_control:
  assumes "invariant m ac av c"
  shows "(pc (step m c), l_i (step m c), l_top (step m c), brk (step m c)) =
    (case pc c of
       L6 \<Rightarrow> (L7, None, None, 0)
     | L7 \<Rightarrow> (L10, None, Some 0, 1)
     | L10 \<Rightarrow> (L11, None, Some 0, 1)
     | L11 \<Rightarrow> (L13_init, None, Some 0, 1)
     | L13_init \<Rightarrow> (L13_cond, Some 0, Some 0, 1)
     | L13_cond \<Rightarrow>
         (if the (l_i c) < cycles then (L15, l_i c, Some 0, 1) else (L23, None, Some 0, 1))
     | L15 \<Rightarrow> (L16, l_i c, Some 0, 1)
     | L16 \<Rightarrow> (L19, l_i c, Some 0, 1)
     | L19 \<Rightarrow> (L20, l_i c, Some 0, 1)
     | L20 \<Rightarrow> (L13_incr, l_i c, Some 0, 1)
     | L13_incr \<Rightarrow> (L13_cond, Some (the (l_i c) + 1), Some 0, 1)
     | L23 \<Rightarrow> (L24, None, Some 0, 1)
     | L24 \<Rightarrow> (L25, None, Some 0, 1)
     | L25 \<Rightarrow> (Exit 0, None, Some 0, 1)
     | Exit r \<Rightarrow> (Exit 0, None, Some 0, 1)
     | Fault \<Rightarrow> (Fault, None, None, 0))"
proof -
  have i: "invariant m ac av (step m c)" using assms by (rule invariant_step)
  show ?thesis
  proof (cases "pc c")
    case L6 with assms show ?thesis by (simp add: invariant_defs step_def)
  next
    case L7 with assms show ?thesis by (simp add: invariant_defs step_def)
  next
    case L10
    with assms have t: "l_top c = Some 0" and v: "heap c 0 = Some (Vtop_new m (Some (ac, av)))"
      by (simp_all add: invariant_def)
    show ?thesis using assms L10 by (simp add: invariant_defs step_def store_clk_at [OF t v])
  next
    case L11 with assms show ?thesis by (simp add: invariant_defs step_def live_def)
  next
    case L13_init with assms show ?thesis by (simp add: invariant_defs step_def live_def)
  next
    case L13_cond with assms show ?thesis
      by (simp add: invariant_defs step_def live_def split: option.splits)
  next
    case L15
    with assms have l: "live 0 c" by (simp add: invariant_def)
    from l obtain v where v: "heap c 0 = Some v" using live_obtain by blast
    from l have t: "l_top c = Some 0" "brk c = 1" by (simp_all add: live_def)
    show ?thesis using L15 t by (simp add: step_def store_clk_at [OF t(1) v])
  next
    case L16
    with assms have l: "live 1 c" by (simp add: invariant_def)
    from l obtain v where v: "heap c 0 = Some v" using live_obtain by blast
    from l have t: "l_top c = Some 0" "brk c = 1" by (simp_all add: live_def)
    show ?thesis using L16 t by (simp add: step_def call_eval_at [OF t(1) v])
  next
    case L19
    with assms have l: "live 1 c" by (simp add: invariant_def)
    from l obtain v where v: "heap c 0 = Some v" using live_obtain by blast
    from l have t: "l_top c = Some 0" "brk c = 1" by (simp_all add: live_def)
    show ?thesis using L19 t by (simp add: step_def store_clk_at [OF t(1) v])
  next
    case L20
    with assms have l: "live 0 c" by (simp add: invariant_def)
    from l obtain v where v: "heap c 0 = Some v" using live_obtain by blast
    from l have t: "l_top c = Some 0" "brk c = 1" by (simp_all add: live_def)
    show ?thesis using L20 t by (simp add: step_def call_eval_at [OF t(1) v])
  next
    case L13_incr with assms show ?thesis
      by (simp add: invariant_defs step_def live_def split: option.splits)
  next
    case L23 with assms show ?thesis by (simp add: invariant_defs step_def live_def)
  next
    case L24
    with assms have "map_option clk (heap c 0) = Some 0" by (simp add: invariant_def)
    then obtain v where v: "heap c 0 = Some v" by auto
    show ?thesis using assms L24 v by (simp add: invariant_defs step_def)
  next
    case L25 with assms show ?thesis by (simp add: invariant_defs step_def)
  next
    case (Exit r) with assms show ?thesis by (simp add: invariant_defs step_def)
  next
    case Fault with assms show ?thesis by (simp add: invariant_defs step_def)
  qed
qed

lemma same_control:
  "pc (exec m n (start ac av)) = pc (exec m n (start ac' av')) \<and>
   l_i (exec m n (start ac av)) = l_i (exec m n (start ac' av')) \<and>
   l_top (exec m n (start ac av)) = l_top (exec m n (start ac' av')) \<and>
   brk (exec m n (start ac av)) = brk (exec m n (start ac' av'))"
proof -
  have g: "invariant m ac av c \<Longrightarrow> invariant m ac' av' c' \<Longrightarrow>
      pc c = pc c' \<and> l_i c = l_i c' \<and> l_top c = l_top c' \<and> brk c = brk c' \<Longrightarrow>
      pc (exec m n c) = pc (exec m n c') \<and> l_i (exec m n c) = l_i (exec m n c') \<and>
      l_top (exec m n c) = l_top (exec m n c') \<and> brk (exec m n c) = brk (exec m n c')" for c c'
  proof (induction n arbitrary: c c')
    case 0
    then show ?case by simp
  next
    case (Suc n)
    have e1: "pc c = pc c'" and e2: "l_i c = l_i c'" using Suc.prems(3) by simp_all
    have "(pc (step m c), l_i (step m c), l_top (step m c), brk (step m c)) =
        (pc (step m c'), l_i (step m c'), l_top (step m c'), brk (step m c'))"
      unfolding step_control [OF Suc.prems(1)] step_control [OF Suc.prems(2)] e1 e2
      by (rule refl)
    then have e: "pc (step m c) = pc (step m c') \<and> l_i (step m c) = l_i (step m c') \<and>
        l_top (step m c) = l_top (step m c') \<and> brk (step m c) = brk (step m c')"
      by simp
    show ?case
      using Suc.IH [OF invariant_step [OF Suc.prems(1)] invariant_step [OF Suc.prems(2)] e]
      by simp
  qed
  show ?thesis
    by (rule g [OF invariant_start invariant_start]) (simp add: start_def)
qed

section \<open>The claims\<close>

text \<open>
  In what follows \<open>m\<close> is any model, \<open>ac\<close> and \<open>av\<close> are any command line, and \<open>n\<close> is any
  number of statements executed, so that \<open>exec m n (start ac av)\<close> ranges over every
  configuration an execution passes through. \<open>main m ac av\<close> is the configuration in which
  the program has stopped.
\<close>

text \<open>
  C1. In every cycle the driver sets the clock input to 1 and calls \<open>eval\<close>, then sets it to
  0 and calls \<open>eval\<close> again. Between the initialisation of the clock and the final output
  the driver does exactly this, \<open>cycles\<close> times over; so \<open>eval\<close> is called twice per cycle,
  and the clock values at the calls are 1, 0, 1, 0, ... The calls are applied to the model:
  what the model has printed by the end is what its \<open>eval\<close> prints when it is evaluated, from
  the state the constructor left, on the clock values 1, 0 repeated \<open>cycles\<close> times, with
  the registered command line. And after any \<open>j\<close> cycles, at the test of the loop, the state
  of the instance and standard output are the state and the text which the model's \<open>eval\<close>
  yields on the clock values 1, 0 repeated \<open>j\<close> times.
\<close>

theorem eval_on_each_clock_edge:
  "(\<exists>c. main m ac av = Some c \<and>
     trace c =
       [CommandArgs ac av, New 0, SetClk 0 0] @
       concat (replicate (nat cycles) [SetClk 0 1, Eval 0 1, SetClk 0 0, Eval 0 0]) @
       [Cout sim_done, Delete 0, Return 0] \<and>
     [k. Eval a k \<leftarrow> trace c] = concat (replicate (nat cycles) [1, 0]) \<and>
     length [k. Eval a k \<leftarrow> trace c] = 2 * nat cycles \<and>
     eval_out c =
       snd (eval_seq m (Some (ac, av)) (concat (replicate (nat cycles) [1, 0]))
         (internals (Vtop_new m (Some (ac, av))), [])) \<and>
     stdout c = eval_out c @ sim_done) \<and>
   (j \<le> nat cycles \<longrightarrow>
      pc (exec m (5 + 6 * j) (start ac av)) = L13_cond \<and>
      l_i (exec m (5 + 6 * j) (start ac av)) = Some (int j) \<and>
      heap (exec m (5 + 6 * j) (start ac av)) 0 =
        Some \<lparr>clk = 0, internals =
          fst (eval_seq m (Some (ac, av)) (concat (replicate j [1, 0]))
            (internals (Vtop_new m (Some (ac, av))), []))\<rparr> \<and>
      stdout (exec m (5 + 6 * j) (start ac av)) =
        snd (eval_seq m (Some (ac, av)) (concat (replicate j [1, 0]))
          (internals (Vtop_new m (Some (ac, av))), [])))"
proof -
  obtain c where c: "main m ac av = Some c" "c = exec m 69 (start ac av)"
    "invariant m ac av c" "pc c = Exit 0"
    and t: "trace c =
       [CommandArgs ac av, New 0, SetClk 0 0] @
       concat (replicate 10 [SetClk 0 1, Eval 0 1, SetClk 0 0, Eval 0 0]) @
       [Cout sim_done, Delete 0, Return 0]"
    using final_config [of m ac av] by blast
  have n: "nat cycles = 10" by (simp add: cycles_def)
  have 1: "[k. Eval a k \<leftarrow> trace c] = concat (replicate 10 [1, 0]) \<and>
     length [k. Eval a k \<leftarrow> trace c] = 2 * 10"
    unfolding t ten_times by simp
  have 2: "eval_out c =
       snd (eval_seq m (Some (ac, av)) (concat (replicate (nat cycles) [1, 0]))
         (internals (Vtop_new m (Some (ac, av))), []))"
    unfolding c(2) by (rule model_output)
  have 3: "stdout c = eval_out c @ sim_done"
    using c(3,4) by (simp add: invariant_def freed_def)
  have 4: "j \<le> nat cycles \<longrightarrow>
      pc (exec m (5 + 6 * j) (start ac av)) = L13_cond \<and>
      l_i (exec m (5 + 6 * j) (start ac av)) = Some (int j) \<and>
      heap (exec m (5 + 6 * j) (start ac av)) 0 =
        Some \<lparr>clk = 0, internals =
          fst (eval_seq m (Some (ac, av)) (concat (replicate j [1, 0]))
            (internals (Vtop_new m (Some (ac, av))), []))\<rparr> \<and>
      stdout (exec m (5 + 6 * j) (start ac av)) =
        snd (eval_seq m (Some (ac, av)) (concat (replicate j [1, 0]))
          (internals (Vtop_new m (Some (ac, av))), []))"
    using model_at_test [of j m ac av] by blast
  from c(1) t 1 2 3 4 show ?thesis unfolding n by blast
qed

text \<open>
  On the flip-flop, after one cycle (11 statements): the test of the loop is reached with
  the counter at 1, the flip-flop has toggled to true and has printed its new value once.
  By the end it has printed ten values.
\<close>

theorem eval_on_each_clock_edge_witness:
  "(1::nat) \<le> nat cycles \<and>
   pc (exec toggler 11 (start 1 [''sim''])) = L13_cond \<and>
   l_i (exec toggler 11 (start 1 [''sim''])) = Some 1 \<and>
   heap (exec toggler 11 (start 1 [''sim''])) 0 = Some \<lparr>clk = 0, internals = True\<rparr> \<and>
   stdout (exec toggler 11 (start 1 [''sim''])) = ''q=1 '' \<and>
   (\<exists>c. main toggler 1 [''sim''] = Some c \<and>
      eval_out c = ''q=1 q=0 q=1 q=0 q=1 q=0 q=1 q=0 q=1 q=0 '')"
proof -
  note w = eval_on_each_clock_edge [of toggler 1 "[''sim'']" 1]
  have h: "(1::nat) \<le> nat cycles" by (simp add: cycles_def)
  have e1: "eval_seq toggler (Some (1, [''sim''])) (concat (replicate 1 [1, 0]))
      (internals (Vtop_new toggler (Some (1, [''sim'']))), []) = (True, ''q=1 '')"
    by (simp add: toggler_def)
  have e10: "eval_seq toggler (Some (1, [''sim''])) (concat (replicate (nat cycles) [1, 0]))
      (internals (Vtop_new toggler (Some (1, [''sim'']))), []) =
      (False, ''q=1 q=0 q=1 q=0 q=1 q=0 q=1 q=0 q=1 q=0 '')"
    by (simp add: toggler_def cycles_def numeral_eq_Suc)
  from w h show ?thesis unfolding e1 e10 by auto
qed

text \<open>
  C2. The loop runs exactly \<open>cycles\<close> = 10 iterations and then the program stops. The program
  points of the statements executed are: the five statements before the loop; ten times the
  test, the four statements of the body and the increment; the test once more, the three
  statements after the loop; and from then on the program has exited, however long it is
  observed. The first statement of the body is executed 10 times.
\<close>

theorem loop_runs_cycles_times:
  "cycles = 10 \<and>
   visited m (70 + n) (start ac av) =
     [L6, L7, L10, L11, L13_init] @
     concat (replicate 10 [L13_cond, L15, L16, L19, L20, L13_incr]) @
     [L13_cond, L23, L24, L25] @ replicate (Suc n) (Exit 0) \<and>
   count_list (visited m (70 + n) (start ac av)) L15 = 10 \<and>
   (\<exists>c. main m ac av = Some c \<and> halted c)"
proof -
  have h: "halted (exec m 69 (start ac av))"
    using whole_run [of m ac av] by (simp add: halted_def)
  then have r: "\<exists>c. main m ac av = Some c \<and> halted c" by (simp add: main_result)
  show ?thesis
    using r control_path [of m n ac av] body_entered_10_times [of m n ac av]
    by (simp add: cycles_def)
qed

text \<open>
  C3, as amended. What an execution writes to standard output is the text printed by the
  model during the calls of \<open>eval\<close>, followed by the one line the driver itself prints after
  the loop. At every point standard output is the model's text, with or without that line
  after it, and the line is the only thing the driver prints.
\<close>

theorem only_model_output_and_sim_done:
  "(\<exists>c. main m ac av = Some c \<and> stdout c = eval_out c @ sim_done \<and>
      [s. Cout s \<leftarrow> trace c] = [sim_done]) \<and>
   stdout (exec m n (start ac av)) \<in>
     {eval_out (exec m n (start ac av)), eval_out (exec m n (start ac av)) @ sim_done}"
proof -
  let ?c = "exec m n (start ac av)"
  obtain c where c: "main m ac av = Some c" "invariant m ac av c" "pc c = Exit 0"
    and t: "trace c =
       [CommandArgs ac av, New 0, SetClk 0 0] @
       concat (replicate 10 [SetClk 0 1, Eval 0 1, SetClk 0 0, Eval 0 0]) @
       [Cout sim_done, Delete 0, Return 0]"
    using final_config [of m ac av] by blast
  have s: "stdout c = eval_out c @ sim_done"
    using c(2,3) by (simp add: invariant_def freed_def)
  have 1: "[s. Cout s \<leftarrow> trace c] = [sim_done]" unfolding t ten_times by simp
  have i: "invariant m ac av ?c" by (rule invariant_run)
  have 2: "stdout ?c \<in> {eval_out ?c, eval_out ?c @ sim_done}"
    by (cases "pc ?c") (use i in \<open>simp_all add: invariant_def freed_def live_def\<close>)
  from c(1) s 1 2 show ?thesis by blast
qed

text \<open>
  C3, as stated, fails: run on the model that prints nothing, the calls of \<open>eval\<close> have
  written nothing, and yet standard output holds the line \<open>Sim done\<close>, which the driver
  wrote.
\<close>

theorem driver_prints_counterexample:
  "main silent 1 [''sim''] = Some (exec silent 69 (start 1 [''sim''])) \<and>
   eval_out (exec silent 69 (start 1 [''sim''])) = [] \<and>
   stdout (exec silent 69 (start 1 [''sim''])) = ''Sim done'' @ [CHR 0x0A]"
proof -
  have "eval_out (exec silent 69 (start 1 [''sim''])) = [] \<and>
   stdout (exec silent 69 (start 1 [''sim''])) = ''Sim done'' @ [CHR 0x0A]"
    by (simp add: numeral_eq_Suc start_def stmt_defs silent_def cycles_def sim_done_def)
  then show ?thesis by (simp add: main_result)
qed

text \<open>
  C4. The command line is passed to \<open>Verilated::commandArgs\<close> and is not looked at otherwise.
  For any two command lines, run on the same model: both executions return the same status;
  what the driver does is the same in both, apart from the first event, which is the
  registration of the respective command line; and after any number of statements both are
  at the same program point, with the same loop counter and the same pointer \<open>top\<close>, having
  followed the same path. The body of the loop is entered 10 times.
\<close>

theorem command_line_not_consulted:
  "(\<exists>c c'. main m ac av = Some c \<and> main m ac' av' = Some c' \<and>
      trace c = CommandArgs ac av # tl (trace c) \<and>
      trace c' = CommandArgs ac' av' # tl (trace c') \<and>
      tl (trace c) = tl (trace c') \<and>
      registered c = Some (ac, av) \<and> registered c' = Some (ac', av') \<and>
      exit_status c = exit_status c') \<and>
   visited m n (start ac av) = visited m n (start ac' av') \<and>
   pc (exec m n (start ac av)) = pc (exec m n (start ac' av')) \<and>
   l_i (exec m n (start ac av)) = l_i (exec m n (start ac' av')) \<and>
   l_top (exec m n (start ac av)) = l_top (exec m n (start ac' av')) \<and>
   count_list (visited m (70 + n) (start ac av)) L15 = 10"
proof -
  obtain c where c: "main m ac av = Some c" "invariant m ac av c" "pc c = Exit 0"
    and t: "trace c =
       [CommandArgs ac av, New 0, SetClk 0 0] @
       concat (replicate 10 [SetClk 0 1, Eval 0 1, SetClk 0 0, Eval 0 0]) @
       [Cout sim_done, Delete 0, Return 0]"
    using final_config [of m ac av] by blast
  obtain c' where c': "main m ac' av' = Some c'" "invariant m ac' av' c'" "pc c' = Exit 0"
    and t': "trace c' =
       [CommandArgs ac' av', New 0, SetClk 0 0] @
       concat (replicate 10 [SetClk 0 1, Eval 0 1, SetClk 0 0, Eval 0 0]) @
       [Cout sim_done, Delete 0, Return 0]"
    using final_config [of m ac' av'] by blast
  have r: "registered c = Some (ac, av)" "registered c' = Some (ac', av')"
    using c(2,3) c'(2,3) by (simp_all add: invariant_def freed_def)
  have e: "exit_status c = exit_status c'" using c(3) c'(3) by (simp add: exit_status_def)
  have 1: "trace c = CommandArgs ac av # tl (trace c) \<and>
      trace c' = CommandArgs ac' av' # tl (trace c') \<and> tl (trace c) = tl (trace c')"
    unfolding t t' by simp
  have 2: "visited m n (start ac av) = visited m n (start ac' av')"
    using visited_take [of m n "start ac av" 70] visited_take [of m n "start ac' av'" 70]
    by (simp add: add.commute [of n 70] control_path)
  from c(1) c'(1) r e 1 2 same_control [of m n ac av ac' av']
    body_entered_10_times [of m n ac av]
  show ?thesis by blast
qed

text \<open>
  C5. The driver has no error condition of its own: for every model and every command line
  \<open>main\<close> runs to completion and returns 0. No execution ever reaches \<open>Fault\<close>, and no
  status other than 0 is ever returned.
\<close>

theorem main_returns_zero:
  "(\<exists>c. main m ac av = Some c \<and> pc c = Exit 0 \<and> exit_status c = Some 0) \<and>
   pc (exec m n (start ac av)) \<noteq> Fault \<and>
   exit_status (exec m n (start ac av)) \<in> {None, Some 0}"
proof -
  have 1: "\<exists>c. main m ac av = Some c \<and> pc c = Exit 0 \<and> exit_status c = Some 0"
    using final_config [of m ac av] by (auto simp: exit_status_def)
  have i: "invariant m ac av (exec m n (start ac av))" by (rule invariant_run)
  have 2: "pc (exec m n (start ac av)) \<noteq> Fault"
    using i by (auto simp: invariant_def)
  have 3: "exit_status (exec m n (start ac av)) \<in> {None, Some 0}"
    using i by (cases "pc (exec m n (start ac av))") (simp_all add: invariant_def exit_status_def)
  from 1 2 3 show ?thesis by blast
qed







text \<open>
  C9. After the loop the program writes the line \<open>Sim done\<close>, ended by a newline, to
  standard output, once: it is the only thing the driver prints, and standard output at the
  end is the model's text followed by that line. All 2 * \<open>cycles\<close> calls of \<open>eval\<close> come
  before the write, and after it the driver only destroys the instance and returns.
\<close>

theorem sim_done_printed_once:
  "\<exists>c. main m ac av = Some c \<and>
     sim_done = ''Sim done'' @ [CHR 0x0A] \<and>
     [s. Cout s \<leftarrow> trace c] = [sim_done] \<and>
     stdout c = eval_out c @ sim_done \<and>
     dropWhile (\<lambda>e. e \<noteq> Cout sim_done) (trace c) = [Cout sim_done, Delete 0, Return 0] \<and>
     length [k. Eval a k \<leftarrow> takeWhile (\<lambda>e. e \<noteq> Cout sim_done) (trace c)] = 2 * nat cycles"
proof -
  obtain c where c: "main m ac av = Some c" "invariant m ac av c" "pc c = Exit 0"
    and t: "trace c =
       [CommandArgs ac av, New 0, SetClk 0 0] @
       concat (replicate 10 [SetClk 0 1, Eval 0 1, SetClk 0 0, Eval 0 0]) @
       [Cout sim_done, Delete 0, Return 0]"
    using final_config [of m ac av] by blast
  have s: "stdout c = eval_out c @ sim_done"
    using c(2,3) by (simp add: invariant_def freed_def)
  have "[s. Cout s \<leftarrow> trace c] = [sim_done] \<and>
     dropWhile (\<lambda>e. e \<noteq> Cout sim_done) (trace c) = [Cout sim_done, Delete 0, Return 0] \<and>
     length [k. Eval a k \<leftarrow> takeWhile (\<lambda>e. e \<noteq> Cout sim_done) (trace c)] = 2 * nat cycles"
    unfolding t ten_times by (simp add: cycles_def)
  with c(1) s show ?thesis by (simp add: sim_done_def)
qed

text \<open>
  C10. \<open>Verilated::commandArgs\<close> is called once in an execution, with the command line of
  \<open>main\<close>, and it is the only thing the driver does before it constructs the instance and
  before any call of \<open>eval\<close>. At every point after the first statement the command line is
  registered, so a call of \<open>eval\<close> always finds it.
\<close>

theorem command_args_registered_first:
  "(\<exists>c. main m ac av = Some c \<and>
      [(x, y). CommandArgs x y \<leftarrow> trace c] = [(ac, av)] \<and>
      takeWhile (\<lambda>e. \<not> is_New e \<and> \<not> is_Eval e) (trace c) = [CommandArgs ac av]) \<and>
   (pc (exec m n (start ac av)) = L6 \<or> registered (exec m n (start ac av)) = Some (ac, av))"
proof -
  let ?c = "exec m n (start ac av)"
  obtain c where c: "main m ac av = Some c"
    and t: "trace c =
       [CommandArgs ac av, New 0, SetClk 0 0] @
       concat (replicate 10 [SetClk 0 1, Eval 0 1, SetClk 0 0, Eval 0 0]) @
       [Cout sim_done, Delete 0, Return 0]"
    using final_config [of m ac av] by blast
  have 1: "[(x, y). CommandArgs x y \<leftarrow> trace c] = [(ac, av)] \<and>
      takeWhile (\<lambda>e. \<not> is_New e \<and> \<not> is_Eval e) (trace c) = [CommandArgs ac av]"
    unfolding t ten_times by simp
  have i: "invariant m ac av ?c" by (rule invariant_run)
  have 2: "pc ?c = L6 \<or> registered ?c = Some (ac, av)"
    by (cases "pc ?c") (use i in \<open>simp_all add: invariant_def freed_def live_def\<close>)
  from c 1 2 show ?thesis by blast
qed

text \<open>
  On the flip-flop, after 7 statements: the execution is about to call \<open>eval\<close> for the first
  time (line 16), and the command line is registered.
\<close>

theorem command_args_registered_first_witness:
  "pc (exec toggler 7 (start 1 [''sim''])) = L16 \<and>
   registered (exec toggler 7 (start 1 [''sim''])) = Some (1, [''sim''])"
proof -
  note w = command_args_registered_first [of toggler 1 "[''sim'']" 7]
  have p: "pc (exec toggler 7 (start 1 [''sim''])) = L16"
    by (simp add: numeral_eq_Suc start_def stmt_defs toggler_def cycles_def)
  then have "pc (exec toggler 7 (start 1 [''sim''])) \<noteq> L6" by simp
  with w p show ?thesis by blast
qed

end
